theory Spec2Isabelle
  imports Complex_Main "HOL-Library.Log_Nat"
begin

section \<open>Parameters\<close>

text \<open>
  The module-level constants of \<^verbatim>\<open>QuantFilter.py\<close>. The functions of the script
  are read in exact real arithmetic: a Python float is a real number and every
  operation is the exact one. The results below that are stated on this reading
  either hold of the double-precision program as well (they relate outputs to
  the values the program itself computes, or involve only exactly representable
  values) or are statements about exact arithmetic by their wording. Where
  rounding decides a claim, the survival function is read a second time in
  binary64 arithmetic (\<open>logical_survival_f64\<close> below). The only non-real value
  kept is the NaN that \<^verbatim>\<open>np.mean\<close> returns for an empty array.
\<close>

definition codes :: "string list" where
  "codes = [''bit-flip'', ''phase-flip'', ''depolarizing'']"

definition n_qubits :: nat where
  "n_qubits = 1048576"

text \<open>
  \<^verbatim>\<open>np.linspace(start, stop, num)\<close>: \<open>num\<close> evenly spaced points, both ends included.
\<close>

definition linspace :: "real \<Rightarrow> real \<Rightarrow> nat \<Rightarrow> real list" where
  "linspace start stop num =
     map (\<lambda>i. start + real i * ((stop - start) / real (num - 1))) [0..<num]"

definition p_vals :: "real list" where
  "p_vals = linspace 0 1 41"

section \<open>QEC logical survival and the AUIL signal\<close>

datatype error = ValueError string | KeyError string

text \<open>
  \<^verbatim>\<open>
  def logical_survival(code, p):
      if code in ["bit-flip", "phase-flip"]:
          return (1 - p) ** n_qubits + n_qubits * p * (1 - p) ** (n_qubits - 1)
      elif code == "depolarizing":
          return (1 - p) ** n_qubits
      else:
          raise ValueError("Unknown code")
  \<close>
\<close>

definition logical_survival :: "string \<Rightarrow> real \<Rightarrow> error + real" where
  "logical_survival code p =
     (if code \<in> set [''bit-flip'', ''phase-flip'']
      then Inr ((1 - p) ^ n_qubits + real n_qubits * p * (1 - p) ^ (n_qubits - 1))
      else if code = ''depolarizing''
      then Inr ((1 - p) ^ n_qubits)
      else Inl (ValueError ''Unknown code''))"

text \<open>
  \<^verbatim>\<open>
  def AUIL_signal(code, p):
      return np.maximum(0, 1 - n_qubits * p)
  \<close>
\<close>

definition AUIL_signal :: "string \<Rightarrow> real \<Rightarrow> real" where
  "AUIL_signal code p = max 0 (1 - real n_qubits * p)"

text \<open>The same function applied to an array argument works elementwise.\<close>

definition AUIL_signal_array :: "string \<Rightarrow> real list \<Rightarrow> real list" where
  "AUIL_signal_array code ps = map (\<lambda>p. max 0 (1 - real n_qubits * p)) ps"

section \<open>Data aggregation\<close>

text \<open>
  A list comprehension whose body may raise: the first error ends it.
\<close>

fun map_err :: "('a \<Rightarrow> error + 'b) \<Rightarrow> 'a list \<Rightarrow> error + 'b list" where
  "map_err f [] = Inr []"
| "map_err f (x # xs) =
     (case f x of
        Inl e \<Rightarrow> Inl e
      | Inr y \<Rightarrow> (case map_err f xs of Inl e \<Rightarrow> Inl e | Inr ys \<Rightarrow> Inr (y # ys)))"

type_synonym curves = "(string \<rightharpoonup> real list) \<times> (string \<rightharpoonup> real list)"

text \<open>
  \<^verbatim>\<open>
  for code in codes:
      QEC_curves[code] = np.array([logical_survival(code, p) for p in p_vals])
      AUIL_curves[code] = np.array([AUIL_signal(code, p) for p in p_vals])
  \<close>
  The noise grid is a parameter of the model; the script runs it on \<open>p_vals\<close>.
\<close>

fun aggregate :: "real list \<Rightarrow> string list \<Rightarrow> curves \<Rightarrow> error + curves" where
  "aggregate grid [] (QEC_curves, AUIL_curves) = Inr (QEC_curves, AUIL_curves)"
| "aggregate grid (code # cs) (QEC_curves, AUIL_curves) =
     (case map_err (logical_survival code) grid of
        Inl e \<Rightarrow> Inl e
      | Inr q \<Rightarrow>
          aggregate grid cs
            (QEC_curves(code \<mapsto> q), AUIL_curves(code \<mapsto> map (AUIL_signal code) grid)))"

definition all_curves :: "real list \<Rightarrow> error + curves" where
  "all_curves grid = aggregate grid codes (Map.empty, Map.empty)"

text \<open>Subscripting a dict raises \<^verbatim>\<open>KeyError\<close> on a missing key.\<close>

definition getitem :: "(string \<rightharpoonup> 'v) \<Rightarrow> string \<Rightarrow> error + 'v" where
  "getitem d k = (case d k of None \<Rightarrow> Inl (KeyError k) | Some v \<Rightarrow> Inr v)"

section \<open>Residual\<close>

text \<open>
  \<^verbatim>\<open>
  for code in codes:
      diff = QEC_curves[code] - AUIL_curves[code]
  \<close>
  Subtraction of two arrays of one shape is elementwise; both curves of a code
  are built over the same grid.
\<close>

definition np_sub :: "real list \<Rightarrow> real list \<Rightarrow> real list" where
  "np_sub xs ys = map2 (\<lambda>x y. x - y) xs ys"

definition diff_of :: "curves \<Rightarrow> string \<Rightarrow> error + real list" where
  "diff_of cv code =
     (case getitem (fst cv) code of
        Inl e \<Rightarrow> Inl e
      | Inr q \<Rightarrow> (case getitem (snd cv) code of
                    Inl e \<Rightarrow> Inl e
                  | Inr a \<Rightarrow> Inr (np_sub q a)))"

definition residuals :: "real list \<Rightarrow> error + real list list" where
  "residuals grid =
     (case all_curves grid of
        Inl e \<Rightarrow> Inl e
      | Inr cv \<Rightarrow> map_err (diff_of cv) codes)"

section \<open>Classification rates\<close>

text \<open>
  \<^verbatim>\<open>np.mean\<close> of a boolean array is the number of true entries over the number of
  entries; on an empty array it returns NaN (with a warning, not an exception).
\<close>

datatype npfloat = NaN | Fin real

definition np_mean :: "bool list \<Rightarrow> npfloat" where
  "np_mean bs =
     (if bs = [] then NaN
      else Fin (real (length (filter (\<lambda>b. b) bs)) / real (length bs)))"

text \<open>\<^verbatim>\<open>(curve > 0.5).astype(int)\<close>\<close>

definition over_half :: "real list \<Rightarrow> int list" where
  "over_half curve = map (\<lambda>v. if v > 1 / 2 then 1 else 0) curve"

text \<open>
  \<^verbatim>\<open>
  truth = (QEC_curves[code] > 0.5).astype(int)
  pred = (AUIL_curves[code] > 0.5).astype(int)
  tp = np.mean((truth == 1) & (pred == 1))
  fp = np.mean((truth == 0) & (pred == 1))
  \<close>
\<close>

definition rates_of :: "curves \<Rightarrow> string \<Rightarrow> error + (npfloat \<times> npfloat)" where
  "rates_of cv code =
     (case getitem (fst cv) code of
        Inl e \<Rightarrow> Inl e
      | Inr q \<Rightarrow> (case getitem (snd cv) code of
          Inl e \<Rightarrow> Inl e
        | Inr a \<Rightarrow>
            (let truth = over_half q;
                 pred = over_half a;
                 tp = np_mean (map2 (\<lambda>t p. t = 1 \<and> p = 1) truth pred);
                 fp = np_mean (map2 (\<lambda>t p. t = 0 \<and> p = 1) truth pred)
             in Inr (tp, fp))))"

text \<open>
  \<^verbatim>\<open>
  true_pos, false_pos = [], []
  for code in codes:
      ...
      true_pos.append(tp)
      false_pos.append(fp)
  \<close>
\<close>

fun rates_loop :: "curves \<Rightarrow> string list \<Rightarrow> npfloat list \<times> npfloat list
    \<Rightarrow> error + (npfloat list \<times> npfloat list)" where
  "rates_loop cv [] (true_pos, false_pos) = Inr (true_pos, false_pos)"
| "rates_loop cv (code # cs) (true_pos, false_pos) =
     (case rates_of cv code of
        Inl e \<Rightarrow> Inl e
      | Inr (tp, fp) \<Rightarrow> rates_loop cv cs (true_pos @ [tp], false_pos @ [fp]))"

definition classification :: "real list \<Rightarrow> error + (npfloat list \<times> npfloat list)" where
  "classification grid =
     (case all_curves grid of
        Inl e \<Rightarrow> Inl e
      | Inr cv \<Rightarrow> rates_loop cv codes ([], []))"

section \<open>Single run trace\<close>

text \<open>
  The pseudo-random generator is the process-wide one of numpy, seeded with 42.
  Its algorithm is not part of the script, so the model takes the seeded
  generator as a parameter: the sequence of values that successive calls of
  \<^verbatim>\<open>np.random.rand()\<close> return. A call returns the head and leaves the rest.
\<close>

type_synonym rng = "nat \<Rightarrow> real"

definition rand :: "rng \<Rightarrow> real \<times> rng" where
  "rand g = (g 0, \<lambda>k. g (Suc k))"

text \<open>
  \<^verbatim>\<open>
  logical_bits = np.ones(len(single_run_p))
  for i, p in enumerate(single_run_p):
      survive = np.random.rand() < logical_survival(single_code, p)
      logical_bits[i] = survive
  AUIL_bits = (AUIL_signal(single_code, single_run_p) > 0).astype(float)
  \<close>
  The draw is the left operand of the comparison, so it happens before the
  call of \<open>logical_survival\<close>. Storing a boolean into a float array stores 1.0 or 0.0.
\<close>

fun trace_loop :: "string \<Rightarrow> (nat \<times> real) list \<Rightarrow> real list \<times> rng
    \<Rightarrow> error + (real list \<times> rng)" where
  "trace_loop code [] (logical_bits, g) = Inr (logical_bits, g)"
| "trace_loop code ((i, p) # ips) (logical_bits, g) =
     (case rand g of (u, g') \<Rightarrow>
        (case logical_survival code p of
           Inl e \<Rightarrow> Inl e
         | Inr s \<Rightarrow>
             (let survive = (u < s)
              in trace_loop code ips (logical_bits[i := of_bool survive], g'))))"

definition logical_trace :: "string \<Rightarrow> real list \<Rightarrow> rng \<Rightarrow> error + (real list \<times> rng)" where
  "logical_trace code grid g =
     trace_loop code (enumerate 0 grid) (replicate (length grid) 1, g)"

definition AUIL_trace :: "string \<Rightarrow> real list \<Rightarrow> real list" where
  "AUIL_trace code grid = map (\<lambda>v. of_bool (v > 0)) (AUIL_signal_array code grid)"

definition single_run_p :: "real list" where
  "single_run_p = linspace 0 1 50"

definition single_code :: string where
  "single_code = ''bit-flip''"

section \<open>Double-precision reading of the survival function\<close>

text \<open>
  A binary64 number has a 53-bit significand. \<open>expo x\<close> is the exponent of the
  binade of a positive \<open>x\<close>, that is \<open>\<lfloor>log\<^sub>2 x\<rfloor>\<close>, computed from the bit length
  of an integer; \<open>rne\<close> rounds to the nearest integer, ties to even; \<open>rnd\<close> rounds
  a real to the nearest binary64 number. The exponent range is not modelled
  (no overflow to infinity, no subnormal numbers).
\<close>

definition expo :: "real \<Rightarrow> int" where
  "expo x = (if 1 \<le> x then bitlen \<lfloor>x\<rfloor> - 1 else - bitlen (\<lceil>1 / x\<rceil> - 1))"

definition rne :: "real \<Rightarrow> int" where
  "rne q =
     (let f = \<lfloor>q\<rfloor>; d = q - of_int f
      in if d < 1 / 2 then f else if 1 / 2 < d then f + 1 else if even f then f else f + 1)"

definition rnd :: "real \<Rightarrow> real" where
  "rnd x =
     (if x = 0 then 0
      else (let a = \<bar>x\<bar>; u = 2 powi (expo a - 52)
            in sgn x * (of_int (rne (a / u)) * u)))"






text \<open>The double nearest to \<^verbatim>\<open>1e-17\<close>.\<close>

definition p_tiny :: real where
  "p_tiny = 6490371073168535 / 2 ^ 109"

section \<open>The formulas of the specification\<close>

text \<open>
  The survival probability as the specification words it: zero errors plus
  exactly one error for the single-error-type codes, zero errors for the
  depolarizing code, with \<open>n\<close> the fixed system size.
\<close>

definition Survival_spec :: "string \<Rightarrow> real \<Rightarrow> real" where
  "Survival_spec code p =
     (if code = ''depolarizing'' then (1 - p) ^ n_qubits
      else (1 - p) ^ n_qubits + real n_qubits * p * (1 - p) ^ (n_qubits - 1))"

text \<open>
  The two boolean sequences of the classification summary as the specification
  words them: the QEC curve (truth) and the AUIL curve (prediction), each
  thresholded at the fixed cutoff 0.5.
\<close>

definition truth_at :: "string \<Rightarrow> real \<Rightarrow> bool" where
  "truth_at code p = (case logical_survival code p of Inl e \<Rightarrow> False | Inr s \<Rightarrow> s > 1 / 2)"

definition pred_at :: "string \<Rightarrow> real \<Rightarrow> bool" where
  "pred_at code p = (AUIL_signal code p > 1 / 2)"

section \<open>Basic facts\<close>


lemma n_qubits_pos: "0 < n_qubits"
  by (simp add: n_qubits_def)

lemma codes_iff:
  "code \<in> set codes \<longleftrightarrow> code = ''bit-flip'' \<or> code = ''phase-flip'' \<or> code = ''depolarizing''"
  by (auto simp: codes_def)

lemma logical_survival_supported:
  "code \<in> set codes \<Longrightarrow> logical_survival code p = Inr (Survival_spec code p)"
  by (auto simp: codes_iff logical_survival_def Survival_spec_def)

lemma logical_survival_unsupported:
  "code \<notin> set codes \<Longrightarrow> logical_survival code p = Inl (ValueError ''Unknown code'')"
  by (auto simp: codes_iff logical_survival_def)

lemma length_linspace: "length (linspace start stop num) = num"
  by (simp add: linspace_def)

lemma p_vals_nonempty: "p_vals \<noteq> []"
  using length_linspace [of 0 1 41] by (auto simp: p_vals_def)

section \<open>Arithmetic of the two survival formulas\<close>



text \<open>
  Monotonicity comes from the sign of the derivative, which for \<open>m + 2\<close> qubits
  is \<open>- (m + 2) * (m + 1) * p * (1 - p) ^ m\<close>.
\<close>

lemma two_term_deriv:
  fixes x c :: real
  shows "((\<lambda>p. (1 - p) ^ n + c * p * (1 - p) ^ k) has_real_derivative
           - (real n * (1 - x) ^ (n - 1)) + (c * (1 - x) ^ k - c * x * (real k * (1 - x) ^ (k - 1))))
         (at x)"
  by (auto intro!: derivative_eq_intros)

lemma two_term_slope:
  fixes x :: real
  assumes "0 \<le> x" "x \<le> 1"
  shows "- (real (Suc (Suc m)) * (1 - x) ^ (Suc (Suc m) - 1))
         + (real (Suc (Suc m)) * (1 - x) ^ Suc m
            - real (Suc (Suc m)) * x * (real (Suc m) * (1 - x) ^ (Suc m - 1))) \<le> 0"
proof -
  have "0 \<le> real (Suc (Suc m)) * x * (real (Suc m) * (1 - x) ^ m)"
    using assms by (intro mult_nonneg_nonneg zero_le_power) simp_all
  then show ?thesis by simp
qed

lemma two_term_antimono:
  fixes a b :: real
  assumes "0 \<le> a" "a \<le> b" "b \<le> 1"
  shows "(1 - b) ^ Suc (Suc m) + real (Suc (Suc m)) * b * (1 - b) ^ Suc m
       \<le> (1 - a) ^ Suc (Suc m) + real (Suc (Suc m)) * a * (1 - a) ^ Suc m"
proof (rule DERIV_nonpos_imp_nonincreasing [OF assms(2)])
  fix x :: real
  assume "a \<le> x" "x \<le> b"
  then have x: "0 \<le> x" "x \<le> 1" using assms by simp_all
  show "\<exists>y. ((\<lambda>p. (1 - p) ^ Suc (Suc m) + real (Suc (Suc m)) * p * (1 - p) ^ Suc m)
           has_real_derivative y) (at x) \<and> y \<le> 0"
    using two_term_deriv [of "Suc (Suc m)" "real (Suc (Suc m))" "Suc m" x]
      two_term_slope [OF x, of m]
    by blast
qed

lemma zero_term_antimono:
  fixes a b :: real
  assumes "0 \<le> a" "a \<le> b" "b \<le> 1"
  shows "(1 - b) ^ n \<le> (1 - a) ^ n"
  using assms by (intro power_mono) simp_all

lemma n_qubits_Suc_Suc:
  "Suc (n_qubits - 2) = n_qubits - 1" "Suc (n_qubits - 1) = n_qubits"
  by (simp_all add: n_qubits_def)


lemma Survival_spec_antimono:
  assumes "0 \<le> a" "a \<le> b" "b \<le> 1"
  shows "Survival_spec code b \<le> Survival_spec code a"
proof (cases "code = ''depolarizing''")
  case True
  then show ?thesis using zero_term_antimono [OF assms] by (simp add: Survival_spec_def)
next
  case False
  have "(1 - b) ^ Suc (Suc (n_qubits - 2)) + real (Suc (Suc (n_qubits - 2))) * b * (1 - b) ^ Suc (n_qubits - 2)
       \<le> (1 - a) ^ Suc (Suc (n_qubits - 2)) + real (Suc (Suc (n_qubits - 2))) * a * (1 - a) ^ Suc (n_qubits - 2)"
    using assms by (rule two_term_antimono)
  then have "(1 - b) ^ n_qubits + real n_qubits * b * (1 - b) ^ (n_qubits - 1)
       \<le> (1 - a) ^ n_qubits + real n_qubits * a * (1 - a) ^ (n_qubits - 1)"
    by (simp only: n_qubits_Suc_Suc)
  then show ?thesis using False by (simp add: Survival_spec_def)
qed

section \<open>Rounding to binary64\<close>

lemma of_int_le_pow2:
  assumes "(a::int) \<le> 2 ^ k"
  shows "real_of_int a \<le> 2 ^ k"
proof -
  have "real_of_int a \<le> real_of_int (2 ^ k)"
    using assms by (simp only: of_int_le_iff)
  then show ?thesis by simp
qed

lemma pow2_le_of_int:
  assumes "2 ^ k \<le> (a::int)"
  shows "2 ^ k \<le> real_of_int a"
proof -
  have "real_of_int (2 ^ k) \<le> real_of_int a"
    using assms by (simp only: of_int_le_iff)
  then show ?thesis by simp
qed

text \<open>\<open>expo\<close> is the binade exponent, and rounding moves a value by at most half a unit in the last place.\<close>

lemma expo_bounds:
  assumes "0 < x"
  shows "2 powi expo x \<le> x \<and> x < 2 powi (expo x + 1)"
proof (cases "1 \<le> x")
  case True
  define m where "m = \<lfloor>x\<rfloor>"
  have m: "0 < m" using True by (simp add: m_def)
  then have b: "1 \<le> bitlen m" by (simp add: bitlen_alt_def)
  have i: "2 ^ nat (bitlen m - 1) \<le> m" "m + 1 \<le> 2 ^ nat (bitlen m)"
    using bitlen_bounds [OF m] by simp_all
  have lo: "2 ^ nat (bitlen m - 1) \<le> real_of_int m"
    using i(1) by (rule pow2_le_of_int)
  have hi: "real_of_int (m + 1) \<le> 2 ^ nat (bitlen m)"
    using i(2) by (rule of_int_le_pow2)
  have "real_of_int m \<le> x" "x < real_of_int (m + 1)"
    by (simp_all add: m_def)
  with lo hi have "2 ^ nat (bitlen m - 1) \<le> x" "x < 2 ^ nat (bitlen m)"
    by linarith+
  moreover have "expo x = bitlen m - 1" using True by (simp add: expo_def m_def)
  ultimately show ?thesis using b by (simp add: power_int_def)
next
  case False
  define N where "N = \<lceil>1 / x\<rceil>"
  have y: "1 < 1 / x" using False assms by simp
  then have N: "0 < N - 1" by (simp add: N_def less_ceiling_iff)
  then have b: "1 \<le> bitlen (N - 1)" by (simp add: bitlen_alt_def)
  have i: "2 ^ nat (bitlen (N - 1) - 1) \<le> N - 1" "N \<le> 2 ^ nat (bitlen (N - 1))"
    using bitlen_bounds [OF N] by simp_all
  have lo: "2 ^ nat (bitlen (N - 1) - 1) \<le> real_of_int (N - 1)"
    using i(1) by (rule pow2_le_of_int)
  have hi: "real_of_int N \<le> 2 ^ nat (bitlen (N - 1))"
    using i(2) by (rule of_int_le_pow2)
  have "1 / x \<le> real_of_int N" "real_of_int (N - 1) < 1 / x"
    unfolding N_def by linarith+
  with lo hi have 1: "1 / x \<le> 2 ^ nat (bitlen (N - 1))"
    and 2: "2 ^ nat (bitlen (N - 1) - 1) < 1 / x"
    by linarith+
  define k where "k = nat (bitlen (N - 1) - 1)"
  have bk: "bitlen (N - 1) = int (Suc k)" using b by (simp add: k_def)
  have nk: "nat (bitlen (N - 1)) = Suc k" "nat (bitlen (N - 1) - 1) = k"
    by (simp_all add: bk)
  from 1 assms have "inverse (2 ^ Suc k) \<le> x"
    unfolding nk by (simp add: field_simps)
  moreover from 2 assms have "x < inverse (2 ^ k)"
    unfolding nk by (simp add: field_simps)
  moreover have "expo x = - int (Suc k)" using False by (simp add: expo_def N_def [symmetric] bk)
  moreover have "- int (Suc k) + 1 = - int k" by simp
  ultimately show ?thesis
    by (simp only: power_int_minus power_int_of_nat) 
qed

lemma rne_error: "\<bar>real_of_int (rne q) - q\<bar> \<le> 1 / 2"
  by (auto simp: rne_def Let_def)

lemma rnd_error:
  assumes "0 < x"
  shows "\<bar>rnd x - x\<bar> \<le> 2 powi (expo x - 53)"
proof -
  define u :: real where "u = 2 powi (expo x - 52)"
  have u: "0 < u" by (simp add: u_def)
  have "rnd x - x = (real_of_int (rne (x / u)) - x / u) * u"
    using assms u by (simp add: rnd_def u_def [symmetric] algebra_simps)
  then have "\<bar>rnd x - x\<bar> = \<bar>real_of_int (rne (x / u)) - x / u\<bar> * u"
    using u by (simp add: abs_mult)
  also have "\<dots> \<le> 1 / 2 * u"
    using u rne_error [of "x / u"] by (intro mult_right_mono) simp_all
  also have "\<dots> = 2 powi (expo x - 53)"
    by (simp add: u_def power_int_diff)
  finally show ?thesis .
qed

text \<open>Two values of \<open>rnd\<close> that agree with the doubles Python prints for \<^verbatim>\<open>0.1\<close> and \<^verbatim>\<open>1e-17\<close>.\<close>

lemma rnd_one_tenth: "rnd (1 / 10) = 3602879701896397 / 2 ^ 55"
  by code_simp

lemma p_tiny_double: "rnd (1 / 10 ^ 17) = p_tiny"
  by code_simp







section \<open>Survival model\<close>




text \<open>
  Claim C6. \<open>logical_survival\<close> raises exactly when the code identifier is none of
  bit-flip, phase-flip and depolarizing, and returns a value for each of these
  three. The exception of the source is \<^verbatim>\<open>ValueError("Unknown code")\<close>; it is the
  error the specification calls UnsupportedCodeError.
\<close>

theorem logical_survival_raises_iff:
  "(logical_survival code p = Inl (ValueError ''Unknown code'')) =
     (code \<notin> {''bit-flip'', ''phase-flip'', ''depolarizing''}) \<and>
   (\<exists>s. logical_survival code p = Inr s) =
     (code \<in> {''bit-flip'', ''phase-flip'', ''depolarizing''})"
  by (auto simp: logical_survival_def)

text \<open>
  Claim C7. For every supported code \<open>logical_survival\<close> returns exactly 1 at
  \<open>p = 0\<close> and exactly 0 at \<open>p = 1\<close>.
\<close>

theorem logical_survival_boundary:
  assumes "code \<in> set codes"
  shows "logical_survival code 0 = Inr 1 \<and> logical_survival code 1 = Inr 0"
  using assms by (auto simp: codes_iff logical_survival_def n_qubits_def)

theorem logical_survival_boundary_witness:
  "logical_survival ''bit-flip'' 0 = Inr 1 \<and> logical_survival ''bit-flip'' 1 = Inr 0"
proof -
  have c: "''bit-flip'' \<in> set codes" by (simp add: codes_def)
  show ?thesis using logical_survival_boundary [OF c] .
qed

text \<open>
  Claim C10. For every supported code \<open>logical_survival\<close> is monotonically
  non-increasing in the noise probability over \<open>[0, 1]\<close>: for
  \<open>0 \<le> p1 \<le> p2 \<le> 1\<close> the value at \<open>p1\<close> is at least the value at \<open>p2\<close>.
\<close>

theorem logical_survival_antimono:
  assumes "code \<in> set codes" and "0 \<le> p1" "p1 \<le> p2" "p2 \<le> 1"
  shows "\<exists>s1 s2. logical_survival code p1 = Inr s1 \<and> logical_survival code p2 = Inr s2 \<and> s1 \<ge> s2"
  using assms(1) Survival_spec_antimono [OF assms(2-4)]
  by (simp add: logical_survival_supported)

theorem logical_survival_antimono_witness:
  "\<exists>s1 s2. logical_survival ''phase-flip'' (1 / 4) = Inr s1 \<and>
     logical_survival ''phase-flip'' (1 / 2) = Inr s2 \<and> s1 \<ge> s2"
proof -
  have c: "''phase-flip'' \<in> set codes" by (simp add: codes_def)
  have h: "(0::real) \<le> 1 / 4" "(1 / 4 :: real) \<le> 1 / 2" "(1 / 2 :: real) \<le> 1" by simp_all
  show ?thesis using logical_survival_antimono [OF c h] .
qed

section \<open>Signal model\<close>

text \<open>
  Claim C2. For every code identifier and every \<open>p\<close>, \<open>AUIL_signal\<close> returns
  \<open>max 0 (1 - n * p)\<close>: it is \<open>1 - n * p\<close> and strictly positive exactly when
  \<open>p < 1 / n\<close>, and it is 0 exactly when \<open>p \<ge> 1 / n\<close>.
\<close>

theorem AUIL_signal_max:
  "AUIL_signal code p = max 0 (1 - real n_qubits * p) \<and>
   ((AUIL_signal code p = 1 - real n_qubits * p \<and> 0 < AUIL_signal code p) = (p < 1 / real n_qubits)) \<and>
   ((AUIL_signal code p = 0) = (1 / real n_qubits \<le> p))"
proof -
  have n: "0 < real n_qubits" using n_qubits_pos by simp
  have "(p < 1 / real n_qubits) = (real n_qubits * p < 1)"
    using n by (simp add: pos_less_divide_eq mult.commute)
  moreover have "(1 / real n_qubits \<le> p) = (1 \<le> real n_qubits * p)"
    using n by (simp add: pos_divide_le_eq mult.commute)
  ultimately show ?thesis
    by (auto simp: AUIL_signal_def max_def)
qed

text \<open>
  Claim C9. \<open>AUIL_signal\<close> does not depend on its code argument: two calls with
  the same \<open>p\<close> and any two code identifiers, supported or not, return the same
  value.
\<close>

theorem AUIL_signal_code_independent:
  "AUIL_signal code_A p = AUIL_signal code_B p"
  by (simp add: AUIL_signal_def)

section \<open>Curves\<close>

lemma map_err_total:
  "(\<And>x. x \<in> set xs \<Longrightarrow> f x = Inr (h x)) \<Longrightarrow> map_err f xs = Inr (map h xs)"
  by (induction xs) simp_all

lemma QEC_curve_supported:
  "code \<in> set codes \<Longrightarrow>
     map_err (logical_survival code) grid = Inr (map (Survival_spec code) grid)"
  by (rule map_err_total) (rule logical_survival_supported)

lemma all_curves_supported:
  "\<exists>Q A. all_curves grid = Inr (Q, A) \<and>
     (\<forall>code\<in>set codes. Q code = Some (map (Survival_spec code) grid) \<and>
                        A code = Some (map (AUIL_signal code) grid))"
  by (simp add: all_curves_def codes_def QEC_curve_supported [unfolded codes_def])

lemma getitem_Some: "d k = Some v \<Longrightarrow> getitem d k = Inr v"
  by (simp add: getitem_def)

section \<open>Residual curves\<close>

lemma np_sub_maps:
  "np_sub (map f xs) (map h xs) = map (\<lambda>x. f x - h x) xs"
  by (induction xs) (simp_all add: np_sub_def)

lemma diff_of_supported:
  assumes "Q code = Some (map (Survival_spec code) grid)"
    and "A code = Some (map (AUIL_signal code) grid)"
  shows "diff_of (Q, A) code =
           Inr (map (\<lambda>p. Survival_spec code p - AUIL_signal code p) grid)"
  using assms by (simp add: diff_of_def getitem_Some np_sub_maps)

lemma residuals_supported:
  "residuals grid =
     Inr (map (\<lambda>code. map (\<lambda>p. Survival_spec code p - AUIL_signal code p) grid) codes)"
proof -
  obtain Q A where cv: "all_curves grid = Inr (Q, A)"
    and QA: "\<And>code. code \<in> set codes \<Longrightarrow>
          Q code = Some (map (Survival_spec code) grid) \<and>
          A code = Some (map (AUIL_signal code) grid)"
    using all_curves_supported [of grid] by blast
  have "map_err (diff_of (Q, A)) codes =
      Inr (map (\<lambda>code. map (\<lambda>p. Survival_spec code p - AUIL_signal code p) grid) codes)"
    by (rule map_err_total) (simp add: diff_of_supported QA)
  then show ?thesis by (simp add: residuals_def cv)
qed

text \<open>The subtraction applies no clamp: a residual entry may be negative.\<close>

lemma np_sub_not_clamped: "np_sub [0] [1] = [- 1]"
  by (simp add: np_sub_def)

text \<open>
  Claim C8. For every code of \<open>codes\<close> the residual curve has the length of the
  noise grid, and its entry at every grid point \<open>p\<close> is the value of
  \<open>logical_survival\<close> at \<open>p\<close> minus the value of \<open>AUIL_signal\<close> at \<open>p\<close>.
\<close>

theorem residual_pointwise:
  "\<exists>ds. residuals grid = Inr ds \<and> length ds = length codes \<and>
     (\<forall>k<length codes. length (ds ! k) = length grid \<and>
        (\<forall>i<length grid. \<exists>s. logical_survival (codes ! k) (grid ! i) = Inr s \<and>
           ds ! k ! i = s - AUIL_signal (codes ! k) (grid ! i)))"
  by (simp add: residuals_supported logical_survival_supported)

theorem residual_pointwise_witness:
  "\<exists>ds. residuals [0, 1] = Inr ds \<and> length ds = 3 \<and> length (ds ! 2) = 2 \<and>
      ds ! 2 ! 0 = 0 \<and> ds ! 2 ! 1 = 0"
proof -
  obtain ds where r: "residuals [0, 1] = Inr ds" and l: "length ds = length codes"
    and nth: "\<forall>k<length codes. length (ds ! k) = length [0, 1 :: real] \<and>
        (\<forall>i<length [0, 1 :: real]. \<exists>s. logical_survival (codes ! k) ([0, 1] ! i) = Inr s \<and>
           ds ! k ! i = s - AUIL_signal (codes ! k) ([0, 1] ! i))"
    using residual_pointwise [of "[0, 1]"] by blast
  have k: "2 < length codes" "codes ! 2 = ''depolarizing''" by (simp_all add: codes_def)
  have s0: "logical_survival ''depolarizing'' 0 = Inr 1" and s1: "logical_survival ''depolarizing'' 1 = Inr 0"
    by (simp_all add: logical_survival_def n_qubits_def)
  have a0: "AUIL_signal ''depolarizing'' 0 = 1" and a1: "AUIL_signal ''depolarizing'' 1 = 0"
    by (simp_all add: AUIL_signal_def n_qubits_def)
  have len: "length (ds ! 2) = 2" using nth k by simp
  have "ds ! 2 ! 0 = 0"
    using nth [rule_format, OF k(1)] k(2) s0 a0 by (auto dest!: spec [of _ 0])
  moreover have "ds ! 2 ! 1 = 0"
    using nth [rule_format, OF k(1)] k(2) s1 a1 by (auto dest!: spec [of _ 1])
  ultimately show ?thesis using r l len by (simp add: codes_def)
qed

section \<open>Classification summary\<close>

lemma over_half_tp:
  "map2 (\<lambda>t p. t = 1 \<and> p = 1) (over_half (map f xs)) (over_half (map h xs)) =
     map (\<lambda>x. f x > 1 / 2 \<and> h x > 1 / 2) xs"
  by (induction xs) (auto simp: over_half_def)

lemma over_half_fp:
  "map2 (\<lambda>t p. t = 0 \<and> p = 1) (over_half (map f xs)) (over_half (map h xs)) =
     map (\<lambda>x. \<not> f x > 1 / 2 \<and> h x > 1 / 2) xs"
  by (induction xs) (auto simp: over_half_def)

lemma np_mean_map:
  "xs \<noteq> [] \<Longrightarrow> np_mean (map P xs) = Fin (real (length (filter P xs)) / real (length xs))"
  by (simp add: np_mean_def filter_map o_def)

lemma rates_of_supported:
  assumes "Q code = Some (map (Survival_spec code) grid)"
    and "A code = Some (map (AUIL_signal code) grid)"
  shows "rates_of (Q, A) code =
           Inr (np_mean (map (\<lambda>p. Survival_spec code p > 1 / 2 \<and> AUIL_signal code p > 1 / 2) grid),
                np_mean (map (\<lambda>p. \<not> Survival_spec code p > 1 / 2 \<and> AUIL_signal code p > 1 / 2) grid))"
  using assms
  by (simp only: rates_of_def getitem_Some fst_conv snd_conv sum.case Let_def
      over_half_tp over_half_fp)

lemma rates_loop_total:
  "(\<And>c. c \<in> set cs \<Longrightarrow> rates_of cv c = Inr (r c)) \<Longrightarrow>
     rates_loop cv cs (true_pos, false_pos) =
       Inr (true_pos @ map (\<lambda>c. fst (r c)) cs, false_pos @ map (\<lambda>c. snd (r c)) cs)"
proof (induction cs arbitrary: true_pos false_pos)
  case Nil
  show ?case by simp
next
  case (Cons c cs)
  have "rates_of cv c = Inr (fst (r c), snd (r c))"
    using Cons.prems [of c] by simp
  moreover have "rates_loop cv cs (true_pos @ [fst (r c)], false_pos @ [snd (r c)]) =
      Inr ((true_pos @ [fst (r c)]) @ map (\<lambda>c. fst (r c)) cs,
           (false_pos @ [snd (r c)]) @ map (\<lambda>c. snd (r c)) cs)"
    by (rule Cons.IH) (simp add: Cons.prems)
  ultimately show ?case by (simp add: case_prod_beta)
qed

lemma classification_supported:
  "classification grid =
     Inr (map (\<lambda>code. np_mean (map (\<lambda>p. Survival_spec code p > 1 / 2 \<and> AUIL_signal code p > 1 / 2) grid)) codes,
          map (\<lambda>code. np_mean (map (\<lambda>p. \<not> Survival_spec code p > 1 / 2 \<and> AUIL_signal code p > 1 / 2) grid)) codes)"
proof -
  obtain Q A where cv: "all_curves grid = Inr (Q, A)"
    and QA: "\<And>code. code \<in> set codes \<Longrightarrow>
          Q code = Some (map (Survival_spec code) grid) \<and>
          A code = Some (map (AUIL_signal code) grid)"
    using all_curves_supported [of grid] by blast
  have "rates_loop (Q, A) codes ([], []) =
      Inr ([] @ map (\<lambda>c. fst (np_mean (map (\<lambda>p. Survival_spec c p > 1 / 2 \<and> AUIL_signal c p > 1 / 2) grid),
                np_mean (map (\<lambda>p. \<not> Survival_spec c p > 1 / 2 \<and> AUIL_signal c p > 1 / 2) grid))) codes,
           [] @ map (\<lambda>c. snd (np_mean (map (\<lambda>p. Survival_spec c p > 1 / 2 \<and> AUIL_signal c p > 1 / 2) grid),
                np_mean (map (\<lambda>p. \<not> Survival_spec c p > 1 / 2 \<and> AUIL_signal c p > 1 / 2) grid))) codes)"
    by (rule rates_loop_total) (simp add: rates_of_supported QA)
  then show ?thesis by (simp add: classification_def cv)
qed

lemma truth_at_supported:
  "code \<in> set codes \<Longrightarrow> truth_at code p = (Survival_spec code p > 1 / 2)"
  by (simp add: truth_at_def logical_survival_supported)

lemma fraction_bounds:
  "xs \<noteq> [] \<Longrightarrow> 0 \<le> real (length (filter P xs)) / real (length xs) \<and>
     real (length (filter P xs)) / real (length xs) \<le> 1"
  by (simp add: divide_le_eq_1)

text \<open>
  Claim C3. On a non-empty grid, for every code of \<open>codes\<close>, the true-positive
  rate is the number of grid points where the QEC curve and the AUIL curve both
  exceed 0.5 over the number of grid points, the false-positive rate is the
  number of grid points where the QEC curve is at most 0.5 and the AUIL curve
  exceeds 0.5 over the number of grid points, and both rates lie in \<open>[0, 1]\<close>.
\<close>

theorem classification_rates:
  assumes "grid \<noteq> []"
  shows "\<exists>true_pos false_pos. classification grid = Inr (true_pos, false_pos) \<and>
     length true_pos = length codes \<and> length false_pos = length codes \<and>
     (\<forall>k<length codes. \<exists>tp fp. true_pos ! k = Fin tp \<and> false_pos ! k = Fin fp \<and>
        tp = real (length (filter (\<lambda>p. truth_at (codes ! k) p \<and> pred_at (codes ! k) p) grid))
               / real (length grid) \<and>
        fp = real (length (filter (\<lambda>p. \<not> truth_at (codes ! k) p \<and> pred_at (codes ! k) p) grid))
               / real (length grid) \<and>
        0 \<le> tp \<and> tp \<le> 1 \<and> 0 \<le> fp \<and> fp \<le> 1)"
proof -
  have eq: "\<And>k. k < length codes \<Longrightarrow>
      (\<lambda>p. truth_at (codes ! k) p \<and> pred_at (codes ! k) p) =
      (\<lambda>p. Survival_spec (codes ! k) p > 1 / 2 \<and> AUIL_signal (codes ! k) p > 1 / 2)"
    "\<And>k. k < length codes \<Longrightarrow>
      (\<lambda>p. \<not> truth_at (codes ! k) p \<and> pred_at (codes ! k) p) =
      (\<lambda>p. \<not> Survival_spec (codes ! k) p > 1 / 2 \<and> AUIL_signal (codes ! k) p > 1 / 2)"
    by (simp_all add: truth_at_supported pred_at_def)
  show ?thesis
    using assms fraction_bounds [OF assms]
    by (simp add: classification_supported np_mean_map eq)
qed

theorem classification_rates_witness:
  "\<exists>true_pos false_pos. classification [0, 1] = Inr (true_pos, false_pos) \<and>
     true_pos ! 0 = Fin (1 / 2) \<and> false_pos ! 0 = Fin 0"
proof -
  have ne: "[0, 1 :: real] \<noteq> []" by simp
  obtain true_pos false_pos where r: "classification [0, 1] = Inr (true_pos, false_pos)"
    and nth: "\<forall>k<length codes. \<exists>tp fp. true_pos ! k = Fin tp \<and> false_pos ! k = Fin fp \<and>
        tp = real (length (filter (\<lambda>p. truth_at (codes ! k) p \<and> pred_at (codes ! k) p) [0, 1]))
               / real (length [0, 1 :: real]) \<and>
        fp = real (length (filter (\<lambda>p. \<not> truth_at (codes ! k) p \<and> pred_at (codes ! k) p) [0, 1]))
               / real (length [0, 1 :: real]) \<and>
        0 \<le> tp \<and> tp \<le> 1 \<and> 0 \<le> fp \<and> fp \<le> 1"
    using classification_rates [OF ne] by blast
  have k: "0 < length codes" "codes ! 0 = ''bit-flip''" by (simp_all add: codes_def)
  have t: "truth_at ''bit-flip'' 0" "\<not> truth_at ''bit-flip'' 1"
    by (simp_all add: truth_at_def logical_survival_def n_qubits_def)
  have p: "pred_at ''bit-flip'' 0" "\<not> pred_at ''bit-flip'' 1"
    by (simp_all add: pred_at_def AUIL_signal_def n_qubits_def)
  show ?thesis using r nth [rule_format, OF k(1)] k(2) t p by auto
qed

text \<open>
  Claim C5 says that the classification step fails on an empty grid. It does
  not: the curves are empty arrays, and the mean of an empty array is NaN.
\<close>

theorem classification_empty_no_error:
  "\<not> isl (classification [])"
  by (simp add: classification_supported)

text \<open>
  Claim C5, amended. On an empty noise grid the classification step raises no
  error: it returns, for each of the three codes, NaN as true-positive rate and
  NaN as false-positive rate.
\<close>

theorem classification_empty_grid:
  "classification [] = Inr ([NaN, NaN, NaN], [NaN, NaN, NaN])"
  by (simp add: classification_supported np_mean_def codes_def)

section \<open>Single run trace\<close>

text \<open>
  The loop writes position \<open>i\<close> of \<open>logical_bits\<close> at step \<open>i\<close>, always inside
  the array, so the out-of-range case of the list update is never reached.
\<close>

lemma trace_loop_supported:
  assumes "code \<in> set codes"
  shows "k + length ps \<le> length bits \<Longrightarrow>
     \<exists>bits'. trace_loop code (enumerate k ps) (bits, g) = Inr (bits', \<lambda>i. g (i + length ps)) \<and>
       length bits' = length bits \<and>
       (\<forall>j<length bits. bits' ! j =
          (if k \<le> j \<and> j < k + length ps
           then of_bool (g (j - k) < Survival_spec code (ps ! (j - k)))
           else bits ! j))"
proof (induction ps arbitrary: k bits g)
  case Nil
  show ?case by simp
next
  case (Cons p ps)
  let ?v = "of_bool (g 0 < Survival_spec code p) :: real"
  let ?g = "\<lambda>i. g (Suc i)"
  have len: "Suc k + length ps \<le> length (bits[k := ?v])"
    using Cons.prems by simp
  obtain bits' where run: "trace_loop code (enumerate (Suc k) ps) (bits[k := ?v], ?g)
        = Inr (bits', \<lambda>i. ?g (i + length ps))"
    and l: "length bits' = length (bits[k := ?v])"
    and nth: "\<And>j. j < length (bits[k := ?v]) \<Longrightarrow> bits' ! j =
          (if Suc k \<le> j \<and> j < Suc k + length ps
           then of_bool (?g (j - Suc k) < Survival_spec code (ps ! (j - Suc k)))
           else bits[k := ?v] ! j)"
    using Cons.IH [OF len, of ?g] by blast
  have step: "trace_loop code (enumerate k (p # ps)) (bits, g) = Inr (bits', \<lambda>i. g (i + length (p # ps)))"
    using run by (simp add: rand_def logical_survival_supported [OF assms])
  have "bits' ! j =
          (if k \<le> j \<and> j < k + length (p # ps)
           then of_bool (g (j - k) < Survival_spec code ((p # ps) ! (j - k)))
           else bits ! j)" if j: "j < length bits" for j
  proof (cases "j = k")
    case True
    then show ?thesis using nth [of j] j by simp
  next
    case False
    show ?thesis
    proof (cases "k < j \<and> j < Suc k + length ps")
      case True
      then have "Suc (j - Suc k) = j - k" by arith
      then show ?thesis using nth [of j] j True False
        by (simp add: nth_Cons')
    next
      case False
      then show ?thesis using nth [of j] j \<open>j \<noteq> k\<close> by auto
    qed
  qed
  with step l show ?case by auto
qed

text \<open>
  Claim C4. For a supported code the trace loop takes one value from the
  generator per grid point, in grid order (the \<open>i\<close>-th draw \<open>g i\<close> for point \<open>i\<close>,
  leaving the generator advanced by the length of the grid), and stores 1 at
  point \<open>i\<close> iff that draw is below \<open>logical_survival\<close> at the point, else 0. The
  AUIL trace takes no generator: its entry is 1 iff \<open>AUIL_signal\<close> at the point is
  positive, else 0. That a drawn value is uniform on \<open>[0, 1)\<close> is a property of
  numpy's generator, which the model takes as given.
\<close>

theorem single_run_trace:
  assumes "code \<in> set codes"
  shows "\<exists>bits. logical_trace code grid g = Inr (bits, \<lambda>k. g (k + length grid)) \<and>
     length bits = length grid \<and>
     (\<forall>i<length grid. \<exists>s. logical_survival code (grid ! i) = Inr s \<and>
        bits ! i = of_bool (g i < s)) \<and>
     length (AUIL_trace code grid) = length grid \<and>
     (\<forall>i<length grid. AUIL_trace code grid ! i = of_bool (AUIL_signal code (grid ! i) > 0))"
proof -
  obtain bits where run: "trace_loop code (enumerate 0 grid) (replicate (length grid) 1, g)
        = Inr (bits, \<lambda>i. g (i + length grid))"
    and l: "length bits = length (replicate (length grid) (1::real))"
    and nth: "\<And>j. j < length (replicate (length grid) (1::real)) \<Longrightarrow> bits ! j =
          (if 0 \<le> j \<and> j < 0 + length grid
           then of_bool (g (j - 0) < Survival_spec code (grid ! (j - 0)))
           else replicate (length grid) 1 ! j)"
    using trace_loop_supported [OF assms, of 0 grid "replicate (length grid) 1" g] by auto
  have "\<forall>i<length grid. \<exists>s. logical_survival code (grid ! i) = Inr s \<and>
        bits ! i = of_bool (g i < s)"
    using nth by (simp add: logical_survival_supported [OF assms])
  moreover have "\<forall>i<length grid. AUIL_trace code grid ! i = of_bool (AUIL_signal code (grid ! i) > 0)"
    by (simp add: AUIL_trace_def AUIL_signal_array_def AUIL_signal_def)
  moreover have "length (AUIL_trace code grid) = length grid"
    by (simp add: AUIL_trace_def AUIL_signal_array_def)
  ultimately show ?thesis using run l by (simp add: logical_trace_def)
qed

theorem single_run_trace_witness:
  "\<exists>bits. logical_trace ''bit-flip'' [0, 1] (\<lambda>k. 1 / 2) = Inr (bits, \<lambda>k. 1 / 2) \<and>
     bits = [1, 0] \<and> AUIL_trace ''bit-flip'' [0, 1] = [1, 0]"
proof -
  have c: "''bit-flip'' \<in> set codes" by (simp add: codes_def)
  obtain bits where run: "logical_trace ''bit-flip'' [0, 1] (\<lambda>k. 1 / 2) = Inr (bits, \<lambda>k. 1 / 2)"
    and l: "length bits = 2"
    and nth: "\<forall>i<2. \<exists>s. logical_survival ''bit-flip'' ([0, 1] ! i) = Inr s \<and>
        bits ! i = of_bool (1 / 2 < s)"
    and al: "length (AUIL_trace ''bit-flip'' [0, 1]) = 2"
    and anth: "\<forall>i<2. AUIL_trace ''bit-flip'' [0, 1] ! i = of_bool (AUIL_signal ''bit-flip'' ([0, 1] ! i) > 0)"
    using single_run_trace [OF c, of "[0, 1]" "\<lambda>k. 1 / 2"] by auto
  have s0: "logical_survival ''bit-flip'' 0 = Inr 1" and s1: "logical_survival ''bit-flip'' 1 = Inr 0"
    by (simp_all add: logical_survival_def n_qubits_def)
  have "bits ! 0 = 1" using nth [rule_format, of 0] s0 by simp
  moreover have "bits ! 1 = 0" using nth [rule_format, of 1] s1 by simp
  ultimately have b: "bits = [1, 0]" using l
    by (intro nth_equalityI) (auto simp: less_Suc_eq numeral_2_eq_2)
  have "AUIL_trace ''bit-flip'' [0, 1] ! 0 = 1" using anth [rule_format, of 0]
    by (simp add: AUIL_signal_def)
  moreover have "AUIL_trace ''bit-flip'' [0, 1] ! 1 = 0" using anth [rule_format, of 1]
    by (simp add: AUIL_signal_def n_qubits_def)
  ultimately have a: "AUIL_trace ''bit-flip'' [0, 1] = [1, 0]" using al
    by (intro nth_equalityI) (auto simp: less_Suc_eq numeral_2_eq_2)
  show ?thesis using run a b by simp
qed

end
